theory Spec2Isabelle
  imports Complex_Main "HOL-Library.Product_Lexorder"
begin

section \<open>The nearest-neighbour search of the QMiner tutorial\<close>

text \<open>
  The function verified here is \<^verbatim>\<open>search(query, maxCount, minSim)\<close> of
  \<^verbatim>\<open>src/3-nearest-neighbor-model/nearest-neighbor-model.js\<close> (lines 199 to 249):
  \<^verbatim>\<open>
  function search(query, maxCount=100, minSim=0.05) {
      try {
          let queryRecord = base.store('Email').newRecord({ subject: query });
          if (!queryRecord) {
              return [base.store('Email').newRecordSet(), []];
          }
          let ftrMatrix = featureSpace.extractSparseMatrix(emails);
          let vector = featureSpace.extractSparseVector(queryRecord);
          let sim = ftrMatrix.multiplyT(vector);
          let sort = sim.sortPerm(false);
          let idVec = qm.la.IntVector();
          let simVec = [ ];
          if (maxCount > sort.perm.length) {
              maxCount = sort.perm.length;
          }
          for (let i = 0; i < maxCount; i++) {
              let maxid = sort.perm[i];
              if (sim[maxid] < minSim) { break; }
              idVec.push(maxid);
              simVec.push(sim[maxid]);
          }
          return [base.store('Email').newRecordSet(idVec), simVec];
      } catch (error) {
          return { error: error.message };
      }
  }
  \<close>
\<close>

subsection \<open>Data model\<close>

text \<open>
  A feature vector is the list of its coordinates; its length is its dimensionality.
  Similarity scores and \<^verbatim>\<open>minSim\<close> are real numbers (the finite values of a
  JavaScript Number; the model has no NaN), and \<^verbatim>\<open>maxCount\<close> is an integer, which
  may be negative. A document is identified by its position in the record set
  \<^verbatim>\<open>emails\<close>, counted from 0: this is the index that \<^verbatim>\<open>sort.perm\<close> holds and
  that \<^verbatim>\<open>newRecordSet(idVec)\<close> receives.
\<close>

type_synonym vec = "real list"

text \<open>
  What the module keeps between calls of \<^verbatim>\<open>search\<close>: the records of the store,
  given by their feature vectors (what \<^verbatim>\<open>featureSpace.extractSparseMatrix(emails)\<close>
  reads, one column per record).
\<close>

record store =
  emails :: "vec list"

text \<open>
  The object \<^verbatim>\<open>{ error: error.message }\<close> of the catch clause carries the exception
  that a library call has thrown; no statement of \<^verbatim>\<open>search\<close> itself throws.
  \<open>DimensionMismatch\<close> (with the id of a document) and \<open>InvalidArgument\<close> are the
  error kinds of the specification, and \<open>DivisionByZero\<close> is the failure that its
  scoring convention is there to avoid. \<open>IndexOutOfBounds\<close> stands for a read outside
  a library vector: what the library does there is not in the sources, the model makes
  it an exception, and \<open>search\<close> never gets there (lemma \<open>search_Inl\<close>).
\<close>

datatype error = DimensionMismatch nat | InvalidArgument | IndexOutOfBounds | DivisionByZero

text \<open>
  The successful return value \<^verbatim>\<open>[newRecordSet(idVec), simVec]\<close>: the record ids in the
  order they were pushed, and the similarity weights.
\<close>

type_synonym result = "nat list \<times> real list"

subsection \<open>The library calls\<close>

text \<open>
  Modelled from the spec: the score of one document against the query (\<open>dot\<close>,
  \<open>norm_vec\<close> and \<open>cosine\<close>). The scoring is done by the QMiner library
  (\<^verbatim>\<open>extractSparseMatrix\<close> and \<^verbatim>\<open>extractSparseVector\<close> with \<^verbatim>\<open>normalize: true\<close>,
  then \<^verbatim>\<open>multiplyT\<close>), which is not part of the sources. The specification gives it
  as the cosine similarity \<open>dot(doc, query) / (\<parallel>doc\<parallel> \<sqdot> \<parallel>query\<parallel>)\<close>, with the
  convention that the score is 0 when either vector has zero norm.
\<close>

definition dot :: "vec \<Rightarrow> vec \<Rightarrow> real" where
  "dot u v = sum_list (map (\<lambda>(x, y). x * y) (zip u v))"

definition norm_vec :: "vec \<Rightarrow> real" where
  "norm_vec v = sqrt (dot v v)"

definition cosine :: "vec \<Rightarrow> vec \<Rightarrow> real" where
  "cosine doc query =
     (if norm_vec doc = 0 \<or> norm_vec query = 0 then 0
      else dot doc query / (norm_vec doc * norm_vec query))"

text \<open>
  Modelled from the spec: the computation of that score, with the division as an
  operation that fails on a zero divisor. In HOL \<open>x / 0 = 0\<close>, so the value
  \<open>cosine\<close> alone cannot tell whether the convention is applied before dividing;
  \<open>score\<close> can: without the test of the norms it would return \<open>DivisionByZero\<close>.
\<close>

definition checked_div :: "real \<Rightarrow> real \<Rightarrow> error + real" where
  "checked_div a b = (if b = 0 then Inl DivisionByZero else Inr (a / b))"

definition score :: "vec \<Rightarrow> vec \<Rightarrow> error + real" where
  "score doc query =
     (if norm_vec doc = 0 \<or> norm_vec query = 0 then Inr 0
      else checked_div (dot doc query) (norm_vec doc * norm_vec query))"

text \<open>
  Modelled from the spec: \<^verbatim>\<open>ftrMatrix.multiplyT(vector)\<close>, the library call that yields
  the similarity vector \<^verbatim>\<open>sim\<close>, one score per document, in document order. The
  specification lets it fail with \<open>DimensionMismatch\<close>, naming the document, as soon as
  a document's dimensionality differs from the query's. In the program the matrix and
  the query vector are extracted by the same feature space (lines 170 to 185, 212 and
  214), so \<^verbatim>\<open>search\<close> does not produce operands of different dimensionality; what
  the library does on an empty matrix or in a feature space of dimension 0 is not
  described by the specification.
\<close>

fun scores :: "nat \<Rightarrow> vec list \<Rightarrow> vec \<Rightarrow> error + real list" where
  "scores i [] query = Inr []"
| "scores i (doc # docs) query =
     (if length doc \<noteq> length query then Inl (DimensionMismatch i)
      else (case score doc query of
              Inl e \<Rightarrow> Inl e
            | Inr s \<Rightarrow>
                (case scores (Suc i) docs query of
                   Inl e \<Rightarrow> Inl e
                 | Inr ss \<Rightarrow> Inr (s # ss))))"

definition multiplyT :: "vec list \<Rightarrow> vec \<Rightarrow> error + real list" where
  "multiplyT ftrMatrix vector = scores 0 ftrMatrix vector"

text \<open>
  \<^verbatim>\<open>sim.sortPerm(false).perm\<close>, the library call that yields the document ids ordered
  by their similarity; it is not part of the sources. The source asks for descending
  order (lines 221 and 222; the argument \<^verbatim>\<open>false\<close> is "not ascending"). The library
  sorts the pairs of a score and its index as a whole, so the descending order puts
  entries of equal score in descending order of their index. This is not the
  tie-break of the specification (ascending document id).
\<close>

definition sortPerm :: "real list \<Rightarrow> nat list" where
  "sortPerm sim = rev (sort_key (\<lambda>id. (sim ! id, id)) [0..<length sim])"

subsection \<open>The loop of lines 233 to 242\<close>

text \<open>
  The loop variable \<open>i\<close> and the two vectors built by \<^verbatim>\<open>push\<close> are the arguments of
  the recursion; \<^verbatim>\<open>break\<close> and the end of the loop return them. A read outside
  \<^verbatim>\<open>sort.perm\<close> or \<^verbatim>\<open>sim\<close> is the exception \<open>IndexOutOfBounds\<close>, which the catch
  clause would return.
\<close>

function loop :: "real list \<Rightarrow> nat list \<Rightarrow> int \<Rightarrow> real \<Rightarrow> nat \<Rightarrow> result \<Rightarrow> error + result" where
  "loop sim perm maxCount minSim i (idVec, simVec) =
     (if int i < maxCount then
        (if length perm \<le> i then Inl IndexOutOfBounds
         else let maxid = perm ! i in
           if length sim \<le> maxid then Inl IndexOutOfBounds
           else if sim ! maxid < minSim then Inr (idVec, simVec)
           else loop sim perm maxCount minSim (Suc i) (idVec @ [maxid], simVec @ [sim ! maxid]))
      else Inr (idVec, simVec))"
  by pat_completeness auto
termination
  by (relation "measure (\<lambda>(sim, perm, maxCount, minSim, i, acc). nat (maxCount - int i))") auto

text \<open>Lines 223 to 242: the clamp of \<^verbatim>\<open>maxCount\<close> and the loop from \<open>i = 0\<close>.\<close>

definition walk :: "real list \<Rightarrow> nat list \<Rightarrow> int \<Rightarrow> real \<Rightarrow> error + result" where
  "walk sim perm maxCount minSim =
     (let maxCount = (if maxCount > int (length perm) then int (length perm) else maxCount)
      in loop sim perm maxCount minSim 0 ([], []))"

subsection \<open>search\<close>

text \<open>
  \<open>queryRecord\<close> is the record made from the query text, given by its feature vector
  (what \<^verbatim>\<open>extractSparseVector\<close> reads), or \<open>None\<close> when \<^verbatim>\<open>newRecord\<close> yields no
  record (line 204). The try block is the case distinction: an exception of a library
  call is the value \<open>Inl\<close>, which the catch clause returns as it is. The extraction
  of the features (lines 212 and 214) is taken to succeed: its results are the
  vectors the model starts from. The defaults \<^verbatim>\<open>maxCount=100\<close> and
  \<^verbatim>\<open>minSim=0.05\<close> are values a caller passes. The function returns its value
  together with the store: no statement of the source assigns to the records, the
  feature space or the query.
\<close>

definition search :: "store \<Rightarrow> vec option \<Rightarrow> int \<Rightarrow> real \<Rightarrow> (error + result) \<times> store" where
  "search st queryRecord maxCount minSim =
     (case queryRecord of
        None \<Rightarrow> (Inr ([], []), st)
      | Some vector \<Rightarrow>
          (case multiplyT (emails st) vector of
             Inl e \<Rightarrow> (Inl e, st)
           | Inr sim \<Rightarrow> (walk sim (sortPerm sim) maxCount minSim, st)))"

text \<open>
  The specification's reading of step 4, for the comparison with the loop: filter the
  sorted pairs to the scores of at least \<open>minSimilarity\<close>, then keep the first
  \<open>maxCount\<close>.
\<close>

definition filter_then_truncate :: "int \<Rightarrow> real \<Rightarrow> (nat \<times> real) list \<Rightarrow> (nat \<times> real) list" where
  "filter_then_truncate maxCount minSimilarity pairs =
     take (nat maxCount) (filter (\<lambda>(id, score). minSimilarity \<le> score) pairs)"

text \<open>
  The ids that the loop emits, in closed form: the leading entries of the first
  \<open>maxCount\<close> entries of the permutation whose score is not below \<open>minSim\<close>.
  It is not a function of the source; the lemmas below show that the loop computes it.
\<close>

definition emitted :: "real list \<Rightarrow> nat list \<Rightarrow> int \<Rightarrow> real \<Rightarrow> nat list" where
  "emitted sim perm maxCount minSim =
     takeWhile (\<lambda>id. minSim \<le> sim ! id) (take (nat maxCount) perm)"

declare loop.simps [simp del]

section \<open>Properties of the library calls\<close>





text \<open>
  The test of the norms covers every zero divisor: the computation of a score never
  fails, and its value is the cosine similarity.
\<close>

lemma score_cosine: "score doc query = Inr (cosine doc query)"
  by (simp add: score_def cosine_def checked_div_def)

text \<open>Without that test the division would fail exactly at the zero norms.\<close>

lemma checked_div_zero_norm:
  "checked_div (dot doc query) (norm_vec doc * norm_vec query) = Inl DivisionByZero \<longleftrightarrow>
   norm_vec doc = 0 \<or> norm_vec query = 0"
  by (simp add: checked_div_def)

lemma scores_matching:
  "\<forall>doc\<in>set docs. length doc = length query \<Longrightarrow>
   scores i docs query = Inr (map (\<lambda>doc. cosine doc query) docs)"
  by (induction docs arbitrary: i) (simp_all add: score_cosine)

lemma scores_Inr:
  "scores i docs query = Inr ss \<Longrightarrow>
   ss = map (\<lambda>doc. cosine doc query) docs \<and> (\<forall>doc\<in>set docs. length doc = length query)"
  by (induction docs arbitrary: i ss) (auto simp: score_cosine split: if_splits sum.splits)

lemma scores_Inl: "scores i docs query = Inl e \<Longrightarrow> \<exists>id. e = DimensionMismatch id"
  by (induction docs arbitrary: i) (auto simp: score_cosine split: if_splits sum.splits)

lemma multiplyT_matching:
  "\<forall>doc\<in>set ftrMatrix. length doc = length vector \<Longrightarrow>
   multiplyT ftrMatrix vector = Inr (map (\<lambda>doc. cosine doc vector) ftrMatrix)"
  by (simp add: multiplyT_def scores_matching)

lemma multiplyT_Inr:
  "multiplyT ftrMatrix vector = Inr sim \<Longrightarrow>
   sim = map (\<lambda>doc. cosine doc vector) ftrMatrix \<and>
   (\<forall>doc\<in>set ftrMatrix. length doc = length vector)"
  unfolding multiplyT_def by (rule scores_Inr)

lemma multiplyT_length: "multiplyT ftrMatrix vector = Inr sim \<Longrightarrow> length sim = length ftrMatrix"
  by (drule multiplyT_Inr) simp

lemma multiplyT_Inl: "multiplyT ftrMatrix vector = Inl e \<Longrightarrow> \<exists>id. e = DimensionMismatch id"
  unfolding multiplyT_def by (rule scores_Inl)

lemma set_sortPerm: "set (sortPerm sim) = {0..<length sim}"
  by (simp add: sortPerm_def)

lemma length_sortPerm: "length (sortPerm sim) = length sim"
  by (simp add: sortPerm_def)

lemma distinct_sortPerm: "distinct (sortPerm sim)"
  by (simp add: sortPerm_def)

lemma sortPerm_in_range: "\<forall>id\<in>set (sortPerm sim). id < length sim"
  by (simp add: set_sortPerm)

text \<open>The order of the permutation: no score is below a later one.\<close>

lemma sortPerm_descending: "sorted_wrt (\<lambda>a b. sim ! b \<le> sim ! a) (sortPerm sim)"
proof -
  let ?key = "\<lambda>id. (sim ! id, id)"
  let ?asc = "sort_key ?key [0..<length sim]"
  have "sorted (map ?key ?asc)" by (rule sorted_sort_key)
  then have "sorted_wrt (\<lambda>a b. ?key a \<le> ?key b) ?asc"
    by (simp add: sorted_map)
  then have "sorted_wrt (\<lambda>a b. sim ! a \<le> sim ! b) ?asc"
    by (rule sorted_wrt_mono_rel [rotated]) auto
  then have "sorted_wrt (\<lambda>a b. sim ! b \<le> sim ! a) (rev ?asc)"
    by (simp add: sorted_wrt_rev)
  then show ?thesis by (simp add: sortPerm_def)
qed

section \<open>The loop in closed form\<close>

lemma loop_unfold:
  assumes "maxCount \<le> int (length perm)" and "\<forall>id\<in>set perm. id < length sim"
  shows "loop sim perm maxCount minSim i (idVec, simVec) =
         Inr (idVec @ takeWhile (\<lambda>id. minSim \<le> sim ! id) (take (nat maxCount - i) (drop i perm)),
              simVec @ map (\<lambda>id. sim ! id)
                 (takeWhile (\<lambda>id. minSim \<le> sim ! id) (take (nat maxCount - i) (drop i perm))))"
  using assms
proof (induction sim perm maxCount minSim i "(idVec, simVec)" arbitrary: idVec simVec rule: loop.induct)
  case (1 sim perm maxCount minSim i idVec simVec)
  show ?case
  proof (cases "int i < maxCount")
    case False
    then have "nat maxCount - i = 0" by simp
    with False show ?thesis by (subst loop.simps) simp
  next
    case True
    with "1.prems" have inside: "i < length perm" by simp
    then have read: "perm ! i < length sim" using "1.prems" by simp
    have step: "nat maxCount - i = Suc (nat maxCount - Suc i)" using True by simp
    have split: "drop i perm = perm ! i # drop (Suc i) perm"
      using inside by (simp add: Cons_nth_drop_Suc)
    show ?thesis
    proof (cases "sim ! (perm ! i) < minSim")
      case True
      with \<open>int i < maxCount\<close> inside read show ?thesis
        by (subst loop.simps) (simp add: step split Let_def)
    next
      case False
      have "loop sim perm maxCount minSim (Suc i) (idVec @ [perm ! i], simVec @ [sim ! (perm ! i)]) =
            Inr ((idVec @ [perm ! i]) @ takeWhile (\<lambda>id. minSim \<le> sim ! id) (take (nat maxCount - Suc i) (drop (Suc i) perm)),
                 (simVec @ [sim ! (perm ! i)]) @ map (\<lambda>id. sim ! id)
                   (takeWhile (\<lambda>id. minSim \<le> sim ! id) (take (nat maxCount - Suc i) (drop (Suc i) perm))))"
      proof (rule "1.hyps" [OF \<open>int i < maxCount\<close> _ refl _ False "1.prems"])
        show "\<not> length perm \<le> i" using inside by simp
        show "\<not> length sim \<le> perm ! i" using read by simp
      qed
      with False \<open>int i < maxCount\<close> inside read show ?thesis
        by (subst loop.simps) (simp add: step split Let_def)
    qed
  qed
qed

lemma walk_unfold:
  assumes "\<forall>id\<in>set perm. id < length sim"
  shows "walk sim perm maxCount minSim =
         Inr (emitted sim perm maxCount minSim, map (\<lambda>id. sim ! id) (emitted sim perm maxCount minSim))"
proof (cases "maxCount > int (length perm)")
  case True
  then have "take (nat maxCount) perm = take (length perm) perm" by simp
  with True show ?thesis
    using loop_unfold [of "int (length perm)" perm sim minSim 0 "[]" "[]"] assms
    by (simp add: walk_def emitted_def)
next
  case False
  then show ?thesis
    using loop_unfold [of maxCount perm sim minSim 0 "[]" "[]"] assms
    by (simp add: walk_def emitted_def)
qed

lemma takeWhile_take_commute: "takeWhile P (take n xs) = take n (takeWhile P xs)"
proof (induction xs arbitrary: n)
  case Nil
  then show ?case by simp
next
  case (Cons x xs)
  then show ?case by (cases n) simp_all
qed

lemma takeWhile_descending:
  "sorted_wrt (\<lambda>a b. f b \<le> f a) xs \<Longrightarrow>
   takeWhile (\<lambda>x. (t::real) \<le> f x) xs = filter (\<lambda>x. t \<le> f x) xs"
proof (induction xs)
  case Nil
  then show ?case by simp
next
  case (Cons x xs)
  show ?case
  proof (cases "t \<le> f x")
    case True
    with Cons show ?thesis by simp
  next
    case False
    with Cons.prems have "\<forall>b\<in>set xs. \<not> t \<le> f b" by auto
    then have "filter (\<lambda>x. t \<le> f x) xs = []" by (simp add: filter_empty_conv)
    with False show ?thesis by simp
  qed
qed


lemma emitted_filter:
  assumes "sorted_wrt (\<lambda>a b. sim ! b \<le> sim ! a) perm"
  shows "emitted sim perm maxCount minSim =
         take (nat maxCount) (filter (\<lambda>id. minSim \<le> sim ! id) perm)"
  unfolding emitted_def takeWhile_take_commute
  using takeWhile_descending [of "\<lambda>id. sim ! id" perm minSim] assms by simp

lemma length_emitted: "length (emitted sim perm maxCount minSim) \<le> min (nat maxCount) (length perm)"
proof -
  have "length (emitted sim perm maxCount minSim) \<le> length (take (nat maxCount) perm)"
    unfolding emitted_def by (rule length_takeWhile_le)
  then show ?thesis by simp
qed

lemma set_emitted: "set (emitted sim perm maxCount minSim) \<subseteq> set perm"
proof
  fix x assume "x \<in> set (emitted sim perm maxCount minSim)"
  then have "x \<in> set (take (nat maxCount) perm)"
    unfolding emitted_def by (rule set_takeWhileD [THEN conjunct1])
  then show "x \<in> set perm" by (rule in_set_takeD)
qed

lemma emitted_threshold: "\<forall>id\<in>set (emitted sim perm maxCount minSim). minSim \<le> sim ! id"
  unfolding emitted_def by (auto dest: set_takeWhileD)

lemma zip_with_scores: "zip ids (map f ids) = map (\<lambda>id. (id, f id)) ids"
  by (induction ids) simp_all

lemma emitted_all_passing:
  assumes sorted: "sorted_wrt (\<lambda>a b. sim ! b \<le> sim ! a) perm"
    and room: "int (length (emitted sim perm maxCount minSim)) < maxCount \<or>
               int (length perm) \<le> maxCount"
  shows "emitted sim perm maxCount minSim = filter (\<lambda>id. minSim \<le> sim ! id) perm"
proof -
  let ?passing = "filter (\<lambda>id. minSim \<le> sim ! id) perm"
  have eq: "emitted sim perm maxCount minSim = take (nat maxCount) ?passing"
    using sorted by (rule emitted_filter)
  have "length ?passing \<le> nat maxCount"
  proof (rule disjE [OF room])
    assume "int (length (emitted sim perm maxCount minSim)) < maxCount"
    then have "min (nat maxCount) (length ?passing) < nat maxCount"
      unfolding eq by simp
    then show ?thesis by simp
  next
    assume "int (length perm) \<le> maxCount"
    moreover have "length ?passing \<le> length perm" by (rule length_filter_le)
    ultimately show ?thesis by linarith
  qed
  with eq show ?thesis by simp
qed

text \<open>The clamp: only \<open>min(maxCount, |perm|)\<close> matters to the walk.\<close>

lemma walk_clamp: "walk sim perm maxCount minSim = walk sim perm (min maxCount (int (length perm))) minSim"
  by (simp add: walk_def)

section \<open>search in closed form\<close>

lemma search_None: "search st None maxCount minSim = (Inr ([], []), st)"
  by (simp add: search_def)

lemma search_scored:
  assumes "multiplyT (emails st) vector = Inr sim"
  shows "search st (Some vector) maxCount minSim =
         (Inr (emitted sim (sortPerm sim) maxCount minSim,
               map (\<lambda>id. sim ! id) (emitted sim (sortPerm sim) maxCount minSim)), st)"
  using assms by (simp add: search_def walk_unfold [OF sortPerm_in_range])

lemma search_matching:
  assumes "\<forall>doc\<in>set (emails st). length doc = length vector"
  shows "search st (Some vector) maxCount minSim =
         (Inr (emitted (map (\<lambda>doc. cosine doc vector) (emails st))
                 (sortPerm (map (\<lambda>doc. cosine doc vector) (emails st))) maxCount minSim,
               map (\<lambda>id. map (\<lambda>doc. cosine doc vector) (emails st) ! id)
                 (emitted (map (\<lambda>doc. cosine doc vector) (emails st))
                    (sortPerm (map (\<lambda>doc. cosine doc vector) (emails st))) maxCount minSim)),
          st)"
  by (rule search_scored) (rule multiplyT_matching [OF assms])

text \<open>A successful call: either there was no query record, or the scoring succeeded.\<close>

lemma search_Inr_cases:
  assumes "fst (search st queryRecord maxCount minSim) = Inr (ids, ws)"
  obtains (no_record) "queryRecord = None" and "ids = []" and "ws = []"
  | (scored) vector sim where "queryRecord = Some vector"
      and "multiplyT (emails st) vector = Inr sim"
      and "ids = emitted sim (sortPerm sim) maxCount minSim"
      and "ws = map (\<lambda>id. sim ! id) ids"
proof (cases queryRecord)
  case None
  with assms have "ids = []" and "ws = []" by (simp_all add: search_None)
  with None show ?thesis by (rule no_record)
next
  case (Some vector)
  show ?thesis
  proof (cases "multiplyT (emails st) vector")
    case (Inl e)
    with Some assms show ?thesis by (simp add: search_def)
  next
    case (Inr sim)
    define out where "out = emitted sim (sortPerm sim) maxCount minSim"
    have "fst (search st (Some vector) maxCount minSim) = Inr (out, map (\<lambda>id. sim ! id) out)"
      by (simp add: search_scored [OF Inr] out_def)
    with assms Some have "ids = out" and "ws = map (\<lambda>id. sim ! id) out"
      by auto
    then have "ids = emitted sim (sortPerm sim) maxCount minSim" and "ws = map (\<lambda>id. sim ! id) ids"
      by (simp_all add: out_def)
    with Some Inr show ?thesis by (rule scored)
  qed
qed

text \<open>A failed call: the only exception is the one of the scoring.\<close>

lemma search_Inl:
  assumes "fst (search st queryRecord maxCount minSim) = Inl e"
  shows "\<exists>id. e = DimensionMismatch id"
proof (cases queryRecord)
  case None
  with assms show ?thesis by (simp add: search_None)
next
  case (Some vector)
  show ?thesis
  proof (cases "multiplyT (emails st) vector")
    case (Inl e')
    with Some assms have "e' = e" by (simp add: search_def)
    with Inl show ?thesis by (auto dest: multiplyT_Inl)
  next
    case (Inr sim)
    with Some assms show ?thesis by (simp add: search_scored)
  qed
qed

lemma search_succeeds:
  "\<forall>doc\<in>set (emails st). length doc = length vector \<Longrightarrow>
   \<exists>ids ws. fst (search st (Some vector) maxCount minSim) = Inr (ids, ws)"
  by (simp add: search_matching)

lemma search_clamp:
  "search st queryRecord maxCount minSim =
   search st queryRecord (min maxCount (int (length (emails st)))) minSim"
proof (cases queryRecord)
  case None
  then show ?thesis by (simp add: search_None)
next
  case (Some vector)
  show ?thesis
  proof (cases "multiplyT (emails st) vector")
    case (Inl e)
    with Some show ?thesis by (simp add: search_def)
  next
    case (Inr sim)
    then have "length (sortPerm sim) = length (emails st)"
      by (simp add: length_sortPerm multiplyT_length)
    with walk_clamp [of sim "sortPerm sim" maxCount minSim] Some Inr show ?thesis
      by (simp add: search_def)
  qed
qed

section \<open>Concrete runs\<close>

lemma run_five_documents:
  "search \<lparr>emails = [[1, 0], [0, 1], [0, 0], [1, 0], [- 1, 0]]\<rparr> (Some [1, 0]) 3 0 =
   (Inr ([3, 0, 2], [1, 1, 0]), \<lparr>emails = [[1, 0], [0, 1], [0, 0], [1, 0], [- 1, 0]]\<rparr>)"
  by (simp add: search_def walk_def loop.simps multiplyT_def score_def checked_div_def
      norm_vec_def dot_def sortPerm_def)

lemma run_threshold_stops:
  "search \<lparr>emails = [[0, 1], [1, 0], [0, 2], [0, 0]]\<rparr> (Some [0, 1]) 10 1 =
   (Inr ([2, 0], [1, 1]), \<lparr>emails = [[0, 1], [1, 0], [0, 2], [0, 0]]\<rparr>)"
  by (simp add: search_def walk_def loop.simps multiplyT_def score_def checked_div_def
      norm_vec_def dot_def sortPerm_def)

lemma scores_threshold_stops:
  "multiplyT [[0, 1], [1, 0], [0, 2], [0, 0]] [0, 1] = Inr [1, 0, 1, 0]"
  by (simp add: multiplyT_def score_def checked_div_def norm_vec_def dot_def)



lemma run_clamped:
  "search \<lparr>emails = [[1, 0], [0, 1]]\<rparr> (Some [1, 0]) 7 (- 1) =
   (Inr ([0, 1], [1, 0]), \<lparr>emails = [[1, 0], [0, 1]]\<rparr>)"
  by (simp add: search_def walk_def loop.simps multiplyT_def score_def checked_div_def
      norm_vec_def dot_def sortPerm_def)

section \<open>The claims\<close>

text \<open>
  C1. For every corpus, query, non-negative \<open>maxCount\<close> and \<open>minSim\<close>, the sequences
  that \<open>search\<close> returns (the ids and the weights) have at most
  \<open>min(maxCount, |corpus|)\<close> entries. A \<open>maxCount\<close> above the number of documents is
  clamped to it: the call returns what it returns for the clamped value.
\<close>

theorem search_length_bound:
  assumes "0 \<le> maxCount"
    and "fst (search st queryRecord maxCount minSim) = Inr (ids, ws)"
  shows "int (length ids) \<le> min maxCount (int (length (emails st))) \<and>
         int (length ws) \<le> min maxCount (int (length (emails st))) \<and>
         search st queryRecord maxCount minSim =
           search st queryRecord (min maxCount (int (length (emails st)))) minSim"
proof -
  have "int (length ids) \<le> min maxCount (int (length (emails st))) \<and>
        int (length ws) \<le> min maxCount (int (length (emails st)))"
    using assms(2)
  proof (cases rule: search_Inr_cases)
    case no_record
    with assms(1) show ?thesis by simp
  next
    case (scored vector sim)
    have "length ids \<le> min (nat maxCount) (length (sortPerm sim))"
      unfolding scored(3) by (rule length_emitted)
    moreover have "length sim = length (emails st)" and "length ws = length ids"
      using scored by (simp_all add: multiplyT_length)
    ultimately show ?thesis using assms(1) by (auto simp: length_sortPerm)
  qed
  with search_clamp [of st queryRecord maxCount minSim] show ?thesis by simp
qed

theorem search_length_bound_witness:
  "fst (search \<lparr>emails = [[1, 0], [0, 1]]\<rparr> (Some [1, 0]) 7 (- 1)) = Inr ([0, 1], [1, 0]) \<and>
   int (length [0, 1::nat]) \<le> min 7 (int (length (emails \<lparr>emails = [[1, 0], [0, 1]]\<rparr>))) \<and>
   search \<lparr>emails = [[1, 0], [0, 1]]\<rparr> (Some [1, 0]) 7 (- 1) =
     search \<lparr>emails = [[1, 0], [0, 1]]\<rparr> (Some [1, 0]) 2 (- 1)"
proof -
  have pos: "(0::int) \<le> 7" by simp
  have run: "fst (search \<lparr>emails = [[1, 0], [0, 1]]\<rparr> (Some [1, 0]) 7 (- 1)) = Inr ([0, 1], [1, 0])"
    by (simp add: run_clamped)
  from search_length_bound [OF pos run] run show ?thesis by simp
qed

text \<open>
  C2. Every pair that \<open>search\<close> returns has a score of at least \<open>minSim\<close>, and the
  threshold is inclusive: it keeps a document whose score is \<open>minSim\<close> or more and
  drops only those strictly below it. So when the count limit has not cut the result
  (fewer than \<open>maxCount\<close> entries were returned, or \<open>maxCount\<close> is at least the number
  of documents), the returned documents are exactly those whose score in the
  similarity vector is \<open>\<ge> minSim\<close>.
\<close>

theorem search_threshold_inclusive:
  assumes "fst (search st (Some vector) maxCount minSim) = Inr (ids, ws)"
  shows "(\<forall>w\<in>set ws. minSim \<le> w) \<and>
         (\<exists>sim. multiplyT (emails st) vector = Inr sim \<and>
            (int (length ids) < maxCount \<or> int (length (emails st)) \<le> maxCount \<longrightarrow>
               (\<forall>id<length (emails st). id \<in> set ids \<longleftrightarrow> minSim \<le> sim ! id)))"
  using assms
proof (cases rule: search_Inr_cases)
  case no_record
  then show ?thesis by simp
next
  case (scored vector' sim)
  let ?perm = "sortPerm sim"
  have sim: "multiplyT (emails st) vector = Inr sim"
    using scored(1,2) by simp
  then have len: "length sim = length (emails st)" by (rule multiplyT_length)
  have above: "\<forall>w\<in>set ws. minSim \<le> w"
    using emitted_threshold [of sim ?perm maxCount minSim] scored(3,4) by simp
  have exact: "\<forall>id<length (emails st). id \<in> set ids \<longleftrightarrow> minSim \<le> sim ! id"
    if room: "int (length ids) < maxCount \<or> int (length (emails st)) \<le> maxCount"
  proof -
    have "int (length (emitted sim ?perm maxCount minSim)) < maxCount \<or>
          int (length ?perm) \<le> maxCount"
      using room scored(3) len by (simp add: length_sortPerm)
    with sortPerm_descending have "ids = filter (\<lambda>id. minSim \<le> sim ! id) ?perm"
      unfolding scored(3) by (rule emitted_all_passing)
    then have "set ids = {id. id < length sim \<and> minSim \<le> sim ! id}"
      by (auto simp: set_sortPerm)
    then show ?thesis by (auto simp: len)
  qed
  from above exact sim show ?thesis by blast
qed

theorem search_threshold_inclusive_witness:
  "fst (search \<lparr>emails = [[0, 1], [1, 0], [0, 2], [0, 0]]\<rparr> (Some [0, 1]) 10 1) =
     Inr ([2, 0], [1, 1]) \<and>
   multiplyT (emails \<lparr>emails = [[0, 1], [1, 0], [0, 2], [0, 0]]\<rparr>) [0, 1] = Inr [1, 0, 1, 0] \<and>
   int (length [2, 0::nat]) < 10 \<and>
   list_all (\<lambda>w. 1 \<le> w) [1, 1::real] \<and>
   (2 \<in> set [2, 0::nat]) = ((1::real) \<le> [1, 0, 1, 0] ! 2) \<and>
   (1 \<in> set [2, 0::nat]) = ((1::real) \<le> [1, 0, 1, 0] ! 1)"
proof -
  have run: "fst (search \<lparr>emails = [[0, 1], [1, 0], [0, 2], [0, 0]]\<rparr> (Some [0, 1]) 10 1) =
     Inr ([2, 0], [1, 1])"
    by (simp add: run_threshold_stops)
  have scored: "multiplyT (emails \<lparr>emails = [[0, 1], [1, 0], [0, 2], [0, 0]]\<rparr>) [0, 1] =
     Inr [1, 0, 1, 0]"
    by (simp add: scores_threshold_stops)
  have room: "int (length [2, 0::nat]) < 10 \<or>
      int (length (emails \<lparr>emails = [[0, 1], [1, 0], [0, 2], [0, 0]]\<rparr>)) \<le> 10"
    by simp
  have third: "2 < length (emails \<lparr>emails = [[0, 1], [1, 0], [0, 2], [0, 0]]\<rparr>)"
    and second: "1 < length (emails \<lparr>emails = [[0, 1], [1, 0], [0, 2], [0, 0]]\<rparr>)"
    by simp_all
  note inclusive = search_threshold_inclusive [OF run]
  from inclusive [THEN conjunct2] scored
  have "int (length [2, 0::nat]) < 10 \<or>
      int (length (emails \<lparr>emails = [[0, 1], [1, 0], [0, 2], [0, 0]]\<rparr>)) \<le> 10 \<longrightarrow>
      (\<forall>id<length (emails \<lparr>emails = [[0, 1], [1, 0], [0, 2], [0, 0]]\<rparr>).
         id \<in> set [2, 0::nat] \<longleftrightarrow> (1::real) \<le> [1, 0, 1, 0] ! id)"
    by auto
  note exact = mp [OF this room, rule_format]
  from inclusive [THEN conjunct1] exact [OF third] exact [OF second] run scored
  show ?thesis by simp
qed

text \<open>
  C3 says that the returned pairs are sorted by score in descending order and that
  pairs of equal score come in ascending order of their document ids. \<^verbatim>\<open>search\<close>
  has no tie-break of its own: it emits the ids in the order of \<^verbatim>\<open>sort.perm\<close>. With
  the five documents below, documents 0 and 3 both score 1 and document 3 comes first.
\<close>

theorem search_sorted_counterexample:
  "fst (search \<lparr>emails = [[1, 0], [0, 1], [0, 0], [1, 0], [- 1, 0]]\<rparr> (Some [1, 0]) 3 0) =
     Inr ([3, 0, 2], [1, 1, 0]) \<and>
   \<not> sorted_wrt (\<lambda>(a, s) (b, r). r < s \<or> (s = r \<and> a < b)) (zip [3, 0, 2::nat] [1, 1, 0::real])"
  by (simp add: run_five_documents)

text \<open>
  C3, as the source has it. The pairs that \<open>search\<close> returns are sorted by score in
  descending order: no score is below a later one. Nothing is said of the order of
  the ids among equal scores.
\<close>

theorem search_sorted_descending:
  assumes "fst (search st queryRecord maxCount minSim) = Inr (ids, ws)"
  shows "sorted_wrt (\<lambda>(a, s) (b, r). r \<le> s) (zip ids ws)"
  using assms
proof (cases rule: search_Inr_cases)
  case no_record
  then show ?thesis by simp
next
  case (scored vector sim)
  have "sorted_wrt (\<lambda>a b. sim ! b \<le> sim ! a) ids"
    unfolding scored(3) emitted_def
    by (intro sorted_wrt_takeWhile sorted_wrt_take sortPerm_descending)
  then show ?thesis
    unfolding scored(4) zip_with_scores by (simp add: sorted_wrt_map)
qed

theorem search_sorted_descending_witness:
  "fst (search \<lparr>emails = [[1, 0], [0, 1], [0, 0], [1, 0], [- 1, 0]]\<rparr> (Some [1, 0]) 3 0) =
     Inr ([3, 0, 2], [1, 1, 0]) \<and>
   sorted_wrt (\<lambda>(a, s) (b, r). r \<le> s) (zip [3, 0, 2::nat] [1, 1, 0::real])"
proof -
  have run: "fst (search \<lparr>emails = [[1, 0], [0, 1], [0, 0], [1, 0], [- 1, 0]]\<rparr> (Some [1, 0]) 3 0) =
     Inr ([3, 0, 2], [1, 1, 0])"
    by (simp add: run_five_documents)
  from search_sorted_descending [OF run] run show ?thesis by simp
qed



text \<open>
  C6 says that a negative \<open>maxCount\<close> makes \<open>search\<close> fail with
  \<open>InvalidArgument\<close>. The source has no check of \<open>maxCount\<close>: with one document
  \<open>[1]\<close>, the query \<open>[1]\<close> and \<open>maxCount = -1\<close> the call succeeds with the empty
  result.
\<close>

theorem search_negative_maxCount_counterexample:
  "fst (search \<lparr>emails = [[1]]\<rparr> (Some [1]) (- 1) 0) = Inr ([], []) \<and>
   fst (search \<lparr>emails = [[1]]\<rparr> (Some [1]) (- 1) 0) \<noteq> Inl InvalidArgument"
  by (simp add: search_def walk_def loop.simps multiplyT_def score_def checked_div_def
      norm_vec_def dot_def sortPerm_def)

text \<open>
  C6, as the source has it. For a negative \<open>maxCount\<close> the clamp of lines 227 to 230
  does not apply and the loop condition \<open>0 < maxCount\<close> is false at once: the call
  never fails with \<open>InvalidArgument\<close>, and it returns the empty result (no ids, no
  weights) when there is no query record and whenever all documents have the query's
  dimensionality.
\<close>

theorem search_negative_maxCount:
  assumes "maxCount < 0"
  shows "fst (search st queryRecord maxCount minSim) \<noteq> Inl InvalidArgument \<and>
         fst (search st None maxCount minSim) = Inr ([], []) \<and>
         ((\<forall>doc\<in>set (emails st). length doc = length vector) \<longrightarrow>
          fst (search st (Some vector) maxCount minSim) = Inr ([], []))"
proof -
  have "fst (search st queryRecord maxCount minSim) \<noteq> Inl InvalidArgument"
    using search_Inl [of st queryRecord maxCount minSim InvalidArgument] by auto
  moreover have "fst (search st None maxCount minSim) = Inr ([], [])"
    by (simp add: search_None)
  moreover have "fst (search st (Some vector) maxCount minSim) = Inr ([], [])"
    if dims: "\<forall>doc\<in>set (emails st). length doc = length vector"
  proof -
    have "emitted sim perm maxCount minSim = []" for sim perm
      using assms by (simp add: emitted_def)
    then show ?thesis by (simp add: search_matching [OF dims])
  qed
  ultimately show ?thesis by blast
qed

theorem search_negative_maxCount_witness:
  "(- 3::int) < 0 \<and>
   fst (search \<lparr>emails = [[1, 0], [0, 1]]\<rparr> (Some [1, 0]) (- 3) 0) = Inr ([], []) \<and>
   fst (search \<lparr>emails = [[1, 0], [0, 1]]\<rparr> (Some [1, 0]) (- 3) 0) \<noteq> Inl InvalidArgument"
proof -
  have negative: "(- 3::int) < 0" by simp
  have dims: "\<forall>doc\<in>set (emails \<lparr>emails = [[1, 0], [0, 1]]\<rparr>). length doc = length [1, 0::real]"
    by simp
  note neg = search_negative_maxCount [OF negative,
      of "\<lparr>emails = [[1, 0], [0, 1]]\<rparr>" "Some [1, 0]" 0 "[1, 0]"]
  from neg [THEN conjunct1] mp [OF neg [THEN conjunct2, THEN conjunct2] dims] negative
  show ?thesis by blast
qed

text \<open>
  C8. On a sequence of (document id, score) pairs sorted by non-increasing score, the
  walk of the source (emit from the top while the score is at least \<open>minSim\<close>, stop at
  the first entry below it or after \<open>maxCount\<close> entries) returns the same pairs as
  filtering the sequence to the scores of at least \<open>minSim\<close> and then keeping the first
  \<open>maxCount\<close>. The sequence of pairs is given, as in the source, by the permutation
  and the score vector it indexes.
\<close>

theorem walk_filter_then_truncate:
  assumes "\<forall>id\<in>set perm. id < length sim"
    and "sorted_wrt (\<lambda>(a, s) (b, r). r \<le> s) (map (\<lambda>id. (id, sim ! id)) perm)"
  shows "\<exists>ids ws. walk sim perm maxCount minSim = Inr (ids, ws) \<and>
           length ids = length ws \<and>
           zip ids ws =
             filter_then_truncate maxCount minSim (map (\<lambda>id. (id, sim ! id)) perm)"
proof -
  let ?ids = "emitted sim perm maxCount minSim"
  have sorted: "sorted_wrt (\<lambda>a b. sim ! b \<le> sim ! a) perm"
    using assms(2) by (simp add: sorted_wrt_map)
  have "zip ?ids (map (\<lambda>id. sim ! id) ?ids) = map (\<lambda>id. (id, sim ! id)) ?ids"
    by (rule zip_with_scores)
  also have "\<dots> = map (\<lambda>id. (id, sim ! id))
                    (take (nat maxCount) (filter (\<lambda>id. minSim \<le> sim ! id) perm))"
    by (simp add: emitted_filter [OF sorted])
  also have "\<dots> = filter_then_truncate maxCount minSim (map (\<lambda>id. (id, sim ! id)) perm)"
    by (simp add: filter_then_truncate_def take_map filter_map comp_def)
  finally have "zip ?ids (map (\<lambda>id. sim ! id) ?ids) =
      filter_then_truncate maxCount minSim (map (\<lambda>id. (id, sim ! id)) perm)" .
  with walk_unfold [OF assms(1), of maxCount minSim] show ?thesis by simp
qed

theorem walk_filter_then_truncate_witness:
  "sorted_wrt (\<lambda>(a, s) (b, r). r \<le> s)
     (map (\<lambda>id. (id, [1 / 2, 3, 1 / 4, 2::real] ! id)) [1, 3, 0, 2::nat]) \<and>
   walk [1 / 2, 3, 1 / 4, 2] [1, 3, 0, 2] 5 (1 / 2) = Inr ([1, 3, 0], [3, 2, 1 / 2]) \<and>
   filter_then_truncate 5 (1 / 2) [(1, 3), (3, 2), (0, 1 / 2), (2, 1 / 4)] =
     zip [1, 3, 0] [3, 2, 1 / 2]"
proof -
  have inside: "\<forall>id\<in>set [1, 3, 0, 2::nat]. id < length [1 / 2, 3, 1 / 4, 2::real]"
    by simp
  have ordered: "sorted_wrt (\<lambda>(a, s) (b, r). r \<le> s)
     (map (\<lambda>id. (id, [1 / 2, 3, 1 / 4, 2::real] ! id)) [1, 3, 0, 2::nat])"
    by simp
  have run: "walk [1 / 2, 3, 1 / 4, 2] [1, 3, 0, 2] 5 (1 / 2) = Inr ([1, 3, 0], [3, 2, 1 / 2])"
    by (simp add: walk_def loop.simps)
  from walk_filter_then_truncate [OF inside ordered, of 5 "1 / 2"] ordered run
  show ?thesis by simp
qed

text \<open>
  C10. On a successful call the id sequence and the weight sequence have the same
  length, and they correspond position by position: the i-th weight is the entry of
  the similarity vector for the document whose id is at position i, that is, the
  similarity score of that document against the query.
\<close>

theorem search_weights_match_ids:
  assumes "fst (search st (Some vector) maxCount minSim) = Inr (ids, ws)"
  shows "length ids = length ws \<and>
         (\<exists>sim. multiplyT (emails st) vector = Inr sim \<and>
            (\<forall>i<length ids. ids ! i < length (emails st) \<and>
                             ws ! i = sim ! (ids ! i) \<and>
                             ws ! i = cosine (emails st ! (ids ! i)) vector))"
  using assms
proof (cases rule: search_Inr_cases)
  case no_record
  then show ?thesis by simp
next
  case (scored vector' sim)
  have sim: "multiplyT (emails st) vector = Inr sim"
    using scored(1,2) by simp
  then have cos: "sim = map (\<lambda>doc. cosine doc vector) (emails st)"
    by (simp add: multiplyT_Inr)
  have "set ids \<subseteq> set (sortPerm sim)"
    unfolding scored(3) by (rule set_emitted)
  then have inside: "\<forall>i<length ids. ids ! i < length (emails st)"
    using cos by (auto simp: set_sortPerm subset_iff)
  have entry: "\<forall>i<length ids. ws ! i = sim ! (ids ! i)"
    unfolding scored(4) by simp
  with inside have "\<forall>i<length ids. ws ! i = cosine (emails st ! (ids ! i)) vector"
    by (simp add: cos)
  with inside entry scored(4) sim show ?thesis by simp
qed

theorem search_weights_match_ids_witness:
  "fst (search \<lparr>emails = [[0, 1], [1, 0], [0, 2], [0, 0]]\<rparr> (Some [0, 1]) 10 1) =
     Inr ([2, 0], [1, 1]) \<and>
   multiplyT (emails \<lparr>emails = [[0, 1], [1, 0], [0, 2], [0, 0]]\<rparr>) [0, 1] = Inr [1, 0, 1, 0] \<and>
   length [2, 0::nat] = length [1, 1::real] \<and>
   [1, 1::real] ! 1 = [1, 0, 1, 0] ! ([2, 0] ! 1) \<and>
   [1, 1] ! 1 = cosine (emails \<lparr>emails = [[0, 1], [1, 0], [0, 2], [0, 0]]\<rparr> ! ([2, 0] ! 1)) [0, 1]"
proof -
  have run: "fst (search \<lparr>emails = [[0, 1], [1, 0], [0, 2], [0, 0]]\<rparr> (Some [0, 1]) 10 1) =
     Inr ([2, 0], [1, 1])"
    by (simp add: run_threshold_stops)
  have scored: "multiplyT (emails \<lparr>emails = [[0, 1], [1, 0], [0, 2], [0, 0]]\<rparr>) [0, 1] =
     Inr [1, 0, 1, 0]"
    by (simp add: scores_threshold_stops)
  have second: "(1::nat) < length [2, 0::nat]" by simp
  note match = search_weights_match_ids [OF run]
  from match [THEN conjunct2] scored
  have "\<forall>i<length [2, 0::nat]. [2, 0] ! i < length (emails \<lparr>emails = [[0, 1], [1, 0], [0, 2], [0, 0]]\<rparr>) \<and>
      [1, 1::real] ! i = [1, 0, 1, 0] ! ([2, 0] ! i) \<and>
      [1, 1] ! i = cosine (emails \<lparr>emails = [[0, 1], [1, 0], [0, 2], [0, 0]]\<rparr> ! ([2, 0] ! i)) [0, 1]"
    by auto
  from match [THEN conjunct1] this [rule_format, OF second] run scored
  show ?thesis by simp
qed

end
